theory Spec2Isabelle
  imports Complex_Main
begin

section \<open>The stage-coordinate reporter\<close>

text \<open>
  The script \<^verbatim>\<open>NKI_get_stage_coordinates_to_log_window.py\<close> stores the path in a fresh
  options object, opens the image file with a Bio-Formats reader, takes the series count (or the override \<^verbatim>\<open>nrTiles\<close>), closes the
  reader, reads the X and the Y stage position of plane 0 of every series from the
  metadata store and writes them to the log window.

  The reader, the metadata store and the log window belong to the host, so the model takes
  them as data: a file system \<open>fs\<close> that maps a path to what the reader parses from it
  (\<open>None\<close> when the reader cannot open the path), and the host's conversion \<open>str\<close> of a
  position value to text. Position values are never computed with, so their type is a
  parameter \<open>'v\<close>. Everything the script does to its collaborators is recorded, in order, in
  a trace of events.
\<close>

subsection \<open>Errors, metadata and events\<close>

text \<open>
  The ways a run can end early. \<open>IOException\<close> stands for whatever the reader raises
  when it cannot open the path (an I/O error, or a format error on a file it cannot
  parse); the model does not tell these apart. \<open>OutOfMemoryError\<close> is raised by a
  \<^verbatim>\<open>range\<close> whose list the host cannot build.
\<close>

datatype error =
    IOException
  | IllegalStateException
  | IndexOutOfBoundsException
  | AttributeError
  | IndexError
  | OutOfMemoryError

text \<open>
  A plane of the metadata store carries two optional position fields; a field that the
  file does not give is \<open>None\<close> (Java's \<^verbatim>\<open>null\<close>). The store is a list of series, each a
  list of planes.
\<close>

record 'v plane =
  positionX :: "'v option"
  positionY :: "'v option"

type_synonym 'v metadata = "'v plane list list"

record 'v image_file =
  nativeSeriesCount :: int
  parsed :: "'v metadata"

datatype event =
    ReaderSetId string
  | ReaderGetSeriesCount
  | ReaderClose
  | GetPlanePositionX int int
  | GetPlanePositionY int int
  | IJLog string

text \<open>
  The state of a run: the id given to the importer options, the metadata store bound to
  the reader, the file the reader holds open, the script's variables \<^verbatim>\<open>seriesCount\<close>,
  \<^verbatim>\<open>posX\<close> and \<^verbatim>\<open>posY\<close>, and the trace. The three variables are unbound in Python until
  the script assigns them; the script never reads one before its assignment, so the
  initial values below are never observed.
\<close>

record 'v state =
  options :: "string option"
  omeMeta :: "'v metadata"
  reader :: "'v image_file option"
  seriesCount :: int
  posX :: "'v list"
  posY :: "'v list"
  trace :: "event list"

definition init :: "'v state" where
  "init =
     \<lparr>options = None, omeMeta = [], reader = None, seriesCount = 0, posX = [], posY = [],
      trace = []\<rparr>"

definition emit :: "event \<Rightarrow> 'v state \<Rightarrow> 'v state" where
  "emit e s = s\<lparr>trace := trace s @ [e]\<rparr>"

subsection \<open>The collaborators\<close>

text \<open>\<^verbatim>\<open>options.setId(file)\<close> on the fresh \<^verbatim>\<open>ImporterOptions\<close>: it stores the path in the
  options object, which the script does not use again, and touches neither the file nor
  the reader.\<close>

definition options_setId :: "string \<Rightarrow> 'v state \<Rightarrow> 'v state" where
  "options_setId file s = s\<lparr>options := Some file\<rparr>"

text \<open>\<^verbatim>\<open>reader.setId(file)\<close>: fails on a path the reader cannot open, otherwise holds the file
  open and fills the bound metadata store.\<close>

definition reader_setId ::
  "(string \<Rightarrow> 'v image_file option) \<Rightarrow> string \<Rightarrow> 'v state \<Rightarrow> (error + unit) \<times> 'v state" where
  "reader_setId fs file s =
     (let s1 = emit (ReaderSetId file) s
      in case fs file of
           None \<Rightarrow> (Inl IOException, s1)
         | Some f \<Rightarrow> (Inr (), s1\<lparr>reader := Some f, omeMeta := parsed f\<rparr>))"

text \<open>\<^verbatim>\<open>reader.getSeriesCount()\<close>: needs an open file.\<close>

definition reader_getSeriesCount :: "'v state \<Rightarrow> (error + int) \<times> 'v state" where
  "reader_getSeriesCount s =
     (let s1 = emit ReaderGetSeriesCount s
      in case reader s1 of
           None \<Rightarrow> (Inl IllegalStateException, s1)
         | Some f \<Rightarrow> (Inr (nativeSeriesCount f), s1))"

text \<open>\<^verbatim>\<open>reader.close()\<close>: releases the file; the metadata store keeps what it was filled
  with.\<close>

definition reader_close :: "'v state \<Rightarrow> 'v state" where
  "reader_close s = (emit ReaderClose s)\<lparr>reader := None\<rparr>"

text \<open>Java's \<^verbatim>\<open>List.get\<close>: an index outside the list raises.\<close>

definition java_get :: "'a list \<Rightarrow> int \<Rightarrow> error + 'a" where
  "java_get xs i =
     (if 0 \<le> i \<and> i < int (length xs) then Inr (xs ! nat i) else Inl IndexOutOfBoundsException)"

definition plane_at :: "'v metadata \<Rightarrow> int \<Rightarrow> int \<Rightarrow> error + 'v plane" where
  "plane_at m i p =
     (case java_get m i of
        Inl e \<Rightarrow> Inl e
      | Inr planes \<Rightarrow> java_get planes p)"

text \<open>\<^verbatim>\<open>omeMeta.getPlanePositionX(i, p)\<close> and \<^verbatim>\<open>getPlanePositionY\<close>: the field of the plane,
  possibly \<^verbatim>\<open>null\<close>.\<close>

definition getPlanePositionX ::
  "int \<Rightarrow> int \<Rightarrow> 'v state \<Rightarrow> (error + 'v option) \<times> 'v state" where
  "getPlanePositionX i p s =
     (let s1 = emit (GetPlanePositionX i p) s
      in case plane_at (omeMeta s1) i p of
           Inl e \<Rightarrow> (Inl e, s1)
         | Inr pl \<Rightarrow> (Inr (positionX pl), s1))"

definition getPlanePositionY ::
  "int \<Rightarrow> int \<Rightarrow> 'v state \<Rightarrow> (error + 'v option) \<times> 'v state" where
  "getPlanePositionY i p s =
     (let s1 = emit (GetPlanePositionY i p) s
      in case plane_at (omeMeta s1) i p of
           Inl e \<Rightarrow> (Inl e, s1)
         | Inr pl \<Rightarrow> (Inr (positionY pl), s1))"

text \<open>\<^verbatim>\<open>.value()\<close> on what the store returned: on \<^verbatim>\<open>null\<close> (Python's \<^verbatim>\<open>None\<close>) the attribute
  lookup raises.\<close>

definition value_of :: "'v option \<Rightarrow> error + 'v" where
  "value_of l = (case l of None \<Rightarrow> Inl AttributeError | Some v \<Rightarrow> Inr v)"

text \<open>\<^verbatim>\<open>IJ.log(line)\<close>.\<close>

definition IJ_log :: "string \<Rightarrow> 'v state \<Rightarrow> 'v state" where
  "IJ_log line s = emit (IJLog line) s"

subsection \<open>Python's range, indexing and list comprehension\<close>

text \<open>\<^verbatim>\<open>range(n)\<close>: the list \<open>0, ..., n - 1\<close>, empty for \<open>n \<le> 0\<close>. This is the list once it
  is built; a host that cannot build it is the matter of \<open>range_on_host\<close> below.\<close>

definition py_range :: "int \<Rightarrow> int list" where
  "py_range n = map int [0..<nat n]"

text \<open>\<^verbatim>\<open>xs[i]\<close>: an index from the front, a negative one from the back, anything else
  raises.\<close>

definition py_index :: "'a list \<Rightarrow> int \<Rightarrow> error + 'a" where
  "py_index xs i =
     (if 0 \<le> i \<and> i < int (length xs) then Inr (xs ! nat i)
      else if i < 0 \<and> - int (length xs) \<le> i then Inr (xs ! nat (int (length xs) + i))
      else Inl IndexError)"

text \<open>\<^verbatim>\<open>[body(i) for i in indices]\<close>: the first failing element ends the comprehension.\<close>

fun comprehension ::
  "(int \<Rightarrow> 's \<Rightarrow> (error + 'a) \<times> 's) \<Rightarrow> int list \<Rightarrow> 's \<Rightarrow> (error + 'a list) \<times> 's" where
  "comprehension body [] s = (Inr [], s)"
| "comprehension body (i # is) s =
     (case body i s of
        (Inl e, s1) \<Rightarrow> (Inl e, s1)
      | (Inr v, s1) \<Rightarrow>
          (case comprehension body is s1 of
             (Inl e, s2) \<Rightarrow> (Inl e, s2)
           | (Inr vs, s2) \<Rightarrow> (Inr (v # vs), s2)))"

subsection \<open>The script\<close>

text \<open>The element \<^verbatim>\<open>omeMeta.getPlanePositionX(i,0).value()\<close> of the first comprehension, and
  its Y twin.\<close>

definition read_posX :: "int \<Rightarrow> 'v state \<Rightarrow> (error + 'v) \<times> 'v state" where
  "read_posX i s =
     (case getPlanePositionX i 0 s of
        (Inl e, s1) \<Rightarrow> (Inl e, s1)
      | (Inr l, s1) \<Rightarrow> (value_of l, s1))"

definition read_posY :: "int \<Rightarrow> 'v state \<Rightarrow> (error + 'v) \<times> 'v state" where
  "read_posY i s =
     (case getPlanePositionY i 0 s of
        (Inl e, s1) \<Rightarrow> (Inl e, s1)
      | (Inr l, s1) \<Rightarrow> (value_of l, s1))"

text \<open>The final loop: \<^verbatim>\<open>IJ.log(str(posX[i]))\<close>, then \<^verbatim>\<open>IJ.log(str(posY[i]))\<close>.\<close>

fun log_loop :: "('v \<Rightarrow> string) \<Rightarrow> int list \<Rightarrow> 'v state \<Rightarrow> (error + unit) \<times> 'v state" where
  "log_loop str [] s = (Inr (), s)"
| "log_loop str (i # is) s =
     (case py_index (posX s) i of
        Inl e \<Rightarrow> (Inl e, s)
      | Inr x \<Rightarrow>
          (let s1 = IJ_log (str x) s
           in case py_index (posY s1) i of
                Inl e \<Rightarrow> (Inl e, s1)
              | Inr y \<Rightarrow> log_loop str is (IJ_log (str y) s1)))"

text \<open>The whole script, statement by statement.\<close>

definition script ::
  "(string \<Rightarrow> 'v image_file option) \<Rightarrow> ('v \<Rightarrow> string) \<Rightarrow> string \<Rightarrow> int
     \<Rightarrow> (error + unit) \<times> 'v state" where
  "script fs str file nrTiles =
     (case reader_setId fs file (options_setId file init) of
        (Inl e, s1) \<Rightarrow> (Inl e, s1)
      | (Inr _, s1) \<Rightarrow>
     (case reader_getSeriesCount s1 of
        (Inl e, s2) \<Rightarrow> (Inl e, s2)
      | (Inr n, s2) \<Rightarrow>
     (let s3 = s2\<lparr>seriesCount := n\<rparr>;
          s4 = (if nrTiles \<noteq> - 1 then s3\<lparr>seriesCount := nrTiles\<rparr> else s3);
          s5 = reader_close s4
      in case comprehension read_posX (py_range (seriesCount s5)) s5 of
           (Inl e, s6) \<Rightarrow> (Inl e, s6)
         | (Inr xs, s6) \<Rightarrow>
     (let s7 = s6\<lparr>posX := xs\<rparr>
      in case comprehension read_posY (py_range (seriesCount s7)) s7 of
           (Inl e, s8) \<Rightarrow> (Inl e, s8)
         | (Inr ys, s8) \<Rightarrow>
     (let s9 = s8\<lparr>posY := ys\<rparr>
      in log_loop str (py_range (seriesCount s9)) s9)))))"

subsection \<open>The script on a host of bounded memory\<close>

text \<open>
  Jython's \<^verbatim>\<open>range(n)\<close> builds its whole list before the first iteration, and fails on a
  host that cannot hold a list of \<open>n\<close> elements. \<open>py_range\<close> is the list when it can be
  built, and \<open>script\<close> above is the run on a host where every list of the run can be built.
  A host is described here by the length \<open>cap\<close> of the longest list it can build;
  \<open>script_on_host\<close> is the same script, statement by statement, with each of its three
  \<^verbatim>\<open>range\<close> calls going through that limit.
\<close>

definition range_on_host :: "nat \<Rightarrow> int \<Rightarrow> error + int list" where
  "range_on_host cap n = (if nat n \<le> cap then Inr (py_range n) else Inl OutOfMemoryError)"

definition script_on_host ::
  "nat \<Rightarrow> (string \<Rightarrow> 'v image_file option) \<Rightarrow> ('v \<Rightarrow> string) \<Rightarrow> string \<Rightarrow> int
     \<Rightarrow> (error + unit) \<times> 'v state" where
  "script_on_host cap fs str file nrTiles =
     (case reader_setId fs file (options_setId file init) of
        (Inl e, s1) \<Rightarrow> (Inl e, s1)
      | (Inr _, s1) \<Rightarrow>
     (case reader_getSeriesCount s1 of
        (Inl e, s2) \<Rightarrow> (Inl e, s2)
      | (Inr n, s2) \<Rightarrow>
     (let s3 = s2\<lparr>seriesCount := n\<rparr>;
          s4 = (if nrTiles \<noteq> - 1 then s3\<lparr>seriesCount := nrTiles\<rparr> else s3);
          s5 = reader_close s4
      in case range_on_host cap (seriesCount s5) of
           Inl e \<Rightarrow> (Inl e, s5)
         | Inr is \<Rightarrow>
     (case comprehension read_posX is s5 of
           (Inl e, s6) \<Rightarrow> (Inl e, s6)
         | (Inr xs, s6) \<Rightarrow>
     (let s7 = s6\<lparr>posX := xs\<rparr>
      in case range_on_host cap (seriesCount s7) of
           Inl e \<Rightarrow> (Inl e, s7)
         | Inr is \<Rightarrow>
     (case comprehension read_posY is s7 of
           (Inl e, s8) \<Rightarrow> (Inl e, s8)
         | (Inr ys, s8) \<Rightarrow>
     (let s9 = s8\<lparr>posY := ys\<rparr>
      in case range_on_host cap (seriesCount s9) of
           Inl e \<Rightarrow> (Inl e, s9)
         | Inr is \<Rightarrow> log_loop str is s9)))))))"

subsection \<open>Observations on a trace\<close>

fun log_lines :: "event list \<Rightarrow> string list" where
  "log_lines [] = []"
| "log_lines (IJLog l # es) = l # log_lines es"
| "log_lines (e # es) = log_lines es"

fun is_read :: "event \<Rightarrow> bool" where
  "is_read (GetPlanePositionX i p) = True"
| "is_read (GetPlanePositionY i p) = True"
| "is_read e = False"

fun is_setId :: "event \<Rightarrow> bool" where
  "is_setId (ReaderSetId f) = True"
| "is_setId e = False"

subsection \<open>What one read returns, without the state\<close>

text \<open>The result of \<^verbatim>\<open>omeMeta.getPlanePositionX(i,0).value()\<close> on a store \<open>m\<close>, and of its Y
  twin; the lemmas below show that the script's reads return exactly these.\<close>

definition lookupX :: "'v metadata \<Rightarrow> int \<Rightarrow> error + 'v" where
  "lookupX m i = (case plane_at m i 0 of Inl e \<Rightarrow> Inl e | Inr pl \<Rightarrow> value_of (positionX pl))"

definition lookupY :: "'v metadata \<Rightarrow> int \<Rightarrow> error + 'v" where
  "lookupY m i = (case plane_at m i 0 of Inl e \<Rightarrow> Inl e | Inr pl \<Rightarrow> value_of (positionY pl))"

text \<open>A list of results read in order: the values when every read succeeds, else the first
  error; and the number of reads made before the reading stops.\<close>

fun collect :: "(error + 'a) list \<Rightarrow> error + 'a list" where
  "collect [] = Inr []"
| "collect (Inl e # rs) = Inl e"
| "collect (Inr v # rs) = (case collect rs of Inl e \<Rightarrow> Inl e | Inr vs \<Rightarrow> Inr (v # vs))"

fun attempted :: "(error + 'a) list \<Rightarrow> nat" where
  "attempted [] = 0"
| "attempted (Inl e # rs) = 1"
| "attempted (Inr v # rs) = Suc (attempted rs)"

definition logged :: "('v \<Rightarrow> string) \<Rightarrow> 'v list \<Rightarrow> 'v list \<Rightarrow> int list \<Rightarrow> event list" where
  "logged str xs ys is =
     concat (map (\<lambda>i. [IJLog (str (xs ! nat i)), IJLog (str (ys ! nat i))]) is)"

subsection \<open>Stores that hold positions\<close>

text \<open>A series holds a position when its plane 0 exists and gives both fields. A store
  holds positions for \<open>N\<close> series when its first \<open>N\<close> series do.\<close>

definition has_position :: "'v plane list \<Rightarrow> bool" where
  "has_position planes =
     (case planes of
        [] \<Rightarrow> False
      | pl # _ \<Rightarrow> positionX pl \<noteq> None \<and> positionY pl \<noteq> None)"

definition holds_positions :: "'v metadata \<Rightarrow> nat \<Rightarrow> bool" where
  "holds_positions m N = (N \<le> length m \<and> list_all has_position (take N m))"

text \<open>The two lines the reporter is to write for one series, and for the first \<open>N\<close> series
  in ascending order.\<close>

definition series_lines :: "('v \<Rightarrow> string) \<Rightarrow> 'v plane list \<Rightarrow> string list" where
  "series_lines str planes =
     (case planes of
        [] \<Rightarrow> []
      | pl # _ \<Rightarrow>
          (case (positionX pl, positionY pl) of
             (Some x, Some y) \<Rightarrow> [str x, str y]
           | _ \<Rightarrow> []))"

definition expected_lines :: "('v \<Rightarrow> string) \<Rightarrow> 'v metadata \<Rightarrow> nat \<Rightarrow> string list" where
  "expected_lines str m N = concat (map (series_lines str) (take N m))"

text \<open>The values that the first \<open>N\<close> series of a store give, as read by the script.\<close>

definition storedX :: "'v metadata \<Rightarrow> nat \<Rightarrow> 'v list" where
  "storedX m N = map (\<lambda>i. projr (lookupX m (int i))) [0..<N]"

definition storedY :: "'v metadata \<Rightarrow> nat \<Rightarrow> 'v list" where
  "storedY m N = map (\<lambda>i. projr (lookupY m (int i))) [0..<N]"

subsection \<open>Observations on a run\<close>

fun is_log :: "event \<Rightarrow> bool" where
  "is_log (IJLog l) = True"
| "is_log e = False"

definition outcome ::
  "(string \<Rightarrow> 'v image_file option) \<Rightarrow> ('v \<Rightarrow> string) \<Rightarrow> string \<Rightarrow> int \<Rightarrow> error + unit" where
  "outcome fs str file nrTiles = fst (script fs str file nrTiles)"

definition final_state ::
  "(string \<Rightarrow> 'v image_file option) \<Rightarrow> ('v \<Rightarrow> string) \<Rightarrow> string \<Rightarrow> int \<Rightarrow> 'v state" where
  "final_state fs str file nrTiles = snd (script fs str file nrTiles)"

definition log_output ::
  "(string \<Rightarrow> 'v image_file option) \<Rightarrow> ('v \<Rightarrow> string) \<Rightarrow> string \<Rightarrow> int \<Rightarrow> string list" where
  "log_output fs str file nrTiles = log_lines (trace (final_state fs str file nrTiles))"




text \<open>The state right after \<^verbatim>\<open>reader.close()\<close>, for a file \<open>f\<close> and an effective series
  count \<open>n\<close>.\<close>

definition closed_state :: "'v image_file \<Rightarrow> string \<Rightarrow> int \<Rightarrow> 'v state" where
  "closed_state f file n =
     \<lparr>options = Some file, omeMeta = parsed f, reader = None, seriesCount = n,
      posX = [], posY = [],
      trace = [ReaderSetId file, ReaderGetSeriesCount, ReaderClose]\<rparr>"

subsection \<open>A file of three tiles\<close>

text \<open>A file of three series at the stage positions (1, 2), (3, 4) and (5, 6), on a disk
  that holds nothing else, and a rendering of these six values with one decimal.\<close>

definition three_tiles :: "real image_file" where
  "three_tiles =
     \<lparr>nativeSeriesCount = 3,
      parsed = [[\<lparr>positionX = Some 1, positionY = Some 2\<rparr>],
                [\<lparr>positionX = Some 3, positionY = Some 4\<rparr>],
                [\<lparr>positionX = Some 5, positionY = Some 6\<rparr>]]\<rparr>"

definition disk :: "string \<Rightarrow> real image_file option" where
  "disk path = (if path = ''tiles.lif'' then Some three_tiles else None)"

definition one_decimal :: "real \<Rightarrow> string" where
  "one_decimal v =
     (if v = 1 then ''1.0'' else if v = 2 then ''2.0'' else if v = 3 then ''3.0''
      else if v = 4 then ''4.0'' else if v = 5 then ''5.0'' else if v = 6 then ''6.0''
      else ''?'')"

text \<open>A file of two series whose second series gives no Y position.\<close>

definition gap_tiles :: "real image_file" where
  "gap_tiles =
     \<lparr>nativeSeriesCount = 2,
      parsed = [[\<lparr>positionX = Some 1, positionY = Some 2\<rparr>],
                [\<lparr>positionX = Some 3, positionY = None\<rparr>]]\<rparr>"

definition gap_disk :: "string \<Rightarrow> real image_file option" where
  "gap_disk path = (if path = ''gap.lif'' then Some gap_tiles else None)"



section \<open>The script's reads and writes, step by step\<close>

lemma read_posX_eq:
  "read_posX i s = (lookupX (omeMeta s) i, s\<lparr>trace := trace s @ [GetPlanePositionX i 0]\<rparr>)"
  by (simp add: read_posX_def getPlanePositionX_def lookupX_def emit_def Let_def split: sum.splits)

lemma read_posY_eq:
  "read_posY i s = (lookupY (omeMeta s) i, s\<lparr>trace := trace s @ [GetPlanePositionY i 0]\<rparr>)"
  by (simp add: read_posY_def getPlanePositionY_def lookupY_def emit_def Let_def split: sum.splits)

lemma comprehension_read_posX:
  "comprehension read_posX is s =
     (collect (map (lookupX (omeMeta s)) is),
      s\<lparr>trace := trace s @
           map (\<lambda>i. GetPlanePositionX i 0) (take (attempted (map (lookupX (omeMeta s)) is)) is)\<rparr>)"
proof (induction "is" arbitrary: s)
  case Nil
  show ?case by simp
next
  case (Cons i "is")
  show ?case
  proof (cases "lookupX (omeMeta s) i")
    case (Inl e)
    with read_posX_eq [of i s] show ?thesis by simp
  next
    case (Inr v)
    with read_posX_eq [of i s] show ?thesis
      by (simp add: Cons.IH split: sum.splits)
  qed
qed

lemma comprehension_read_posY:
  "comprehension read_posY is s =
     (collect (map (lookupY (omeMeta s)) is),
      s\<lparr>trace := trace s @
           map (\<lambda>i. GetPlanePositionY i 0) (take (attempted (map (lookupY (omeMeta s)) is)) is)\<rparr>)"
proof (induction "is" arbitrary: s)
  case Nil
  show ?case by simp
next
  case (Cons i "is")
  show ?case
  proof (cases "lookupY (omeMeta s) i")
    case (Inl e)
    with read_posY_eq [of i s] show ?thesis by simp
  next
    case (Inr v)
    with read_posY_eq [of i s] show ?thesis
      by (simp add: Cons.IH split: sum.splits)
  qed
qed

text \<open>Inside the lists the final loop never raises: every index it uses is in range.\<close>

lemma log_loop_in_range:
  "\<forall>i\<in>set is. 0 \<le> i \<and> i < int (length (posX s)) \<and> i < int (length (posY s)) \<Longrightarrow>
   log_loop str is s = (Inr (), s\<lparr>trace := trace s @ logged str (posX s) (posY s) is\<rparr>)"
proof (induction "is" arbitrary: s)
  case Nil
  show ?case by (simp add: logged_def)
next
  case (Cons i "is")
  let ?s2 = "IJ_log (str (posY s ! nat i)) (IJ_log (str (posX s ! nat i)) s)"
  have px: "posX ?s2 = posX s" and py: "posY ?s2 = posY s"
    by (simp_all add: IJ_log_def emit_def)
  from Cons.prems
  have rest: "\<forall>i\<in>set is. 0 \<le> i \<and> i < int (length (posX ?s2)) \<and> i < int (length (posY ?s2))"
    by (simp add: px py)
  from Cons.prems have i: "0 \<le> i" "i < int (length (posX s))" "i < int (length (posY s))"
    by simp_all
  have "log_loop str (i # is) s = log_loop str is ?s2"
    using i by (simp add: py_index_def Let_def IJ_log_def emit_def)
  also have "\<dots> = (Inr (), ?s2\<lparr>trace := trace ?s2 @ logged str (posX ?s2) (posY ?s2) is\<rparr>)"
    by (rule Cons.IH [OF rest])
  also have "\<dots> = (Inr (), s\<lparr>trace := trace s @ logged str (posX s) (posY s) (i # is)\<rparr>)"
    by (simp add: logged_def IJ_log_def emit_def)
  finally show ?case .
qed

subsection \<open>Results read in order\<close>

lemma collect_map_Inr [simp]: "collect (map Inr vs) = Inr vs"
  by (induction vs) simp_all

lemma attempted_map_Inr [simp]: "attempted (map Inr vs) = length vs"
  by (induction vs) simp_all

lemma collect_Inr_D: "collect rs = Inr vs \<Longrightarrow> rs = map Inr vs"
proof (induction rs arbitrary: vs)
  case Nil
  then show ?case by simp
next
  case (Cons r rs)
  show ?case
  proof (cases r)
    case (Inl e)
    with Cons.prems show ?thesis by simp
  next
    case (Inr v)
    with Cons.prems obtain ws where ws: "collect rs = Inr ws" and vs: "vs = v # ws"
      by (auto split: sum.splits)
    from Cons.IH [OF ws] Inr vs show ?thesis by simp
  qed
qed

lemma collect_Inr_iff: "collect rs = Inr vs \<longleftrightarrow> rs = map Inr vs"
  using collect_Inr_D by auto




lemma script_unopened:
  "fs file = None \<Longrightarrow>
   script fs str file k =
     (Inl IOException, init\<lparr>options := Some file, trace := [ReaderSetId file]\<rparr>)"
  by (simp add: script_def options_setId_def reader_setId_def emit_def init_def)

lemma script_opened:
  "fs file = Some f \<Longrightarrow>
   script fs str file k =
     (let s5 = closed_state f file (if k \<noteq> - 1 then k else nativeSeriesCount f)
      in case comprehension read_posX (py_range (seriesCount s5)) s5 of
           (Inl e, s6) \<Rightarrow> (Inl e, s6)
         | (Inr xs, s6) \<Rightarrow>
             (let s7 = s6\<lparr>posX := xs\<rparr>
              in case comprehension read_posY (py_range (seriesCount s7)) s7 of
                (Inl e, s8) \<Rightarrow> (Inl e, s8)
              | (Inr ys, s8) \<Rightarrow>
                  (let s9 = s8\<lparr>posY := ys\<rparr>
                   in log_loop str (py_range (seriesCount s9)) s9)))"
  by (simp add: script_def reader_setId_def reader_getSeriesCount_def reader_close_def
      options_setId_def emit_def init_def closed_state_def Let_def)

lemma py_range_bounds: "i \<in> set (py_range n) \<Longrightarrow> 0 \<le> i \<and> i < int (length (py_range n))"
  by (auto simp: py_range_def)

lemma script_X_fails:
  assumes "fs file = Some f"
    and "n = (if k \<noteq> - 1 then k else nativeSeriesCount f)"
    and "collect (map (lookupX (parsed f)) (py_range n)) = Inl e"
  shows "script fs str file k =
     (Inl e, (closed_state f file n)
        \<lparr>trace := [ReaderSetId file, ReaderGetSeriesCount, ReaderClose] @
           map (\<lambda>i. GetPlanePositionX i 0)
             (take (attempted (map (lookupX (parsed f)) (py_range n))) (py_range n))\<rparr>)"
  using assms
  by (simp add: script_opened comprehension_read_posX closed_state_def Let_def)

lemma script_Y_fails:
  assumes "fs file = Some f"
    and "n = (if k \<noteq> - 1 then k else nativeSeriesCount f)"
    and "collect (map (lookupX (parsed f)) (py_range n)) = Inr xs"
    and "collect (map (lookupY (parsed f)) (py_range n)) = Inl e"
  shows "script fs str file k =
     (Inl e, (closed_state f file n)
        \<lparr>posX := xs,
         trace := [ReaderSetId file, ReaderGetSeriesCount, ReaderClose] @
           map (\<lambda>i. GetPlanePositionX i 0) (py_range n) @
           map (\<lambda>i. GetPlanePositionY i 0)
             (take (attempted (map (lookupY (parsed f)) (py_range n))) (py_range n))\<rparr>)"
proof -
  from assms(3) have "map (lookupX (parsed f)) (py_range n) = map Inr xs"
    by (simp add: collect_Inr_iff)
  then have a: "attempted (map (lookupX (parsed f)) (py_range n)) = length (py_range n)"
    by (metis attempted_map_Inr length_map)
  show ?thesis
    using assms a
    by (simp add: script_opened comprehension_read_posX comprehension_read_posY
        closed_state_def Let_def)
qed

lemma script_succeeds:
  assumes "fs file = Some f"
    and "n = (if k \<noteq> - 1 then k else nativeSeriesCount f)"
    and "collect (map (lookupX (parsed f)) (py_range n)) = Inr xs"
    and "collect (map (lookupY (parsed f)) (py_range n)) = Inr ys"
  shows "script fs str file k =
     (Inr (), (closed_state f file n)
        \<lparr>posX := xs, posY := ys,
         trace := [ReaderSetId file, ReaderGetSeriesCount, ReaderClose] @
           map (\<lambda>i. GetPlanePositionX i 0) (py_range n) @
           map (\<lambda>i. GetPlanePositionY i 0) (py_range n) @
           logged str xs ys (py_range n)\<rparr>)"
proof -
  from assms(3) have mx: "map (lookupX (parsed f)) (py_range n) = map Inr xs"
    by (simp add: collect_Inr_iff)
  then have ax: "attempted (map (lookupX (parsed f)) (py_range n)) = length (py_range n)"
    by (metis attempted_map_Inr length_map)
  from mx have lx: "length xs = length (py_range n)"
    by (metis length_map)
  from assms(4) have my: "map (lookupY (parsed f)) (py_range n) = map Inr ys"
    by (simp add: collect_Inr_iff)
  then have ay: "attempted (map (lookupY (parsed f)) (py_range n)) = length (py_range n)"
    by (metis attempted_map_Inr length_map)
  from my have ly: "length ys = length (py_range n)"
    by (metis length_map)
  let ?s = "(closed_state f file n)
        \<lparr>posX := xs, posY := ys,
         trace := [ReaderSetId file, ReaderGetSeriesCount, ReaderClose] @
           map (\<lambda>i. GetPlanePositionX i 0) (py_range n) @
           map (\<lambda>i. GetPlanePositionY i 0) (py_range n)\<rparr>"
  have "\<forall>i\<in>set (py_range n). 0 \<le> i \<and> i < int (length (posX ?s)) \<and> i < int (length (posY ?s))"
    using py_range_bounds [of _ n] by (simp add: lx ly)
  from log_loop_in_range [OF this, of str]
  have ll: "log_loop str (py_range n) ?s =
     (Inr (), ?s\<lparr>trace := trace ?s @ logged str (posX ?s) (posY ?s) (py_range n)\<rparr>)" .
  have "script fs str file k = log_loop str (py_range n) ?s"
    using assms ax ay
    by (simp add: script_opened comprehension_read_posX comprehension_read_posY
        closed_state_def Let_def)
  with ll show ?thesis by simp
qed

subsection \<open>The log lines of a trace\<close>

lemma log_lines_append: "log_lines (a @ b) = log_lines a @ log_lines b"
  by (induction a rule: log_lines.induct) simp_all

lemma log_lines_readsX: "log_lines (map (\<lambda>i. GetPlanePositionX i 0) is) = []"
  by (induction "is") simp_all

lemma log_lines_readsY: "log_lines (map (\<lambda>i. GetPlanePositionY i 0) is) = []"
  by (induction "is") simp_all

lemma py_range_nonpos: "n \<le> 0 \<Longrightarrow> py_range n = []"
  by (simp add: py_range_def)

subsection \<open>Reading from a store that holds positions\<close>

lemma holds_positions_nth:
  "holds_positions m N \<Longrightarrow> i < N \<Longrightarrow> i < length m \<and> has_position (m ! i)"
  by (auto simp: holds_positions_def list_all_length)

lemma lookup_has_position:
  assumes "i < length m" and "has_position (m ! i)"
  shows "\<exists>x y. lookupX m (int i) = Inr x \<and> lookupY m (int i) = Inr y
            \<and> series_lines str (m ! i) = [str x, str y]"
proof -
  from assms(2) obtain pl rest x y
    where "m ! i = pl # rest" "positionX pl = Some x" "positionY pl = Some y"
    by (auto simp: has_position_def split: list.splits)
  with assms(1) have "lookupX m (int i) = Inr x \<and> lookupY m (int i) = Inr y
            \<and> series_lines str (m ! i) = [str x, str y]"
    by (simp add: lookupX_def lookupY_def plane_at_def java_get_def value_of_def series_lines_def)
  then show ?thesis by blast
qed


lemma py_range_int: "py_range (int N) = map int [0..<N]"
  by (simp add: py_range_def)

lemma holds_lookupX:
  assumes "holds_positions m N"
  shows "map (lookupX m) (py_range (int N)) = map Inr (storedX m N)"
proof -
  have "lookupX m (int i) = Inr (projr (lookupX m (int i)))" if "i < N" for i
    using lookup_has_position [of i m] holds_positions_nth [OF assms that] by fastforce
  then show ?thesis
    by (simp add: py_range_int storedX_def)
qed

lemma holds_lookupY:
  assumes "holds_positions m N"
  shows "map (lookupY m) (py_range (int N)) = map Inr (storedY m N)"
proof -
  have "lookupY m (int i) = Inr (projr (lookupY m (int i)))" if "i < N" for i
    using lookup_has_position [of i m] holds_positions_nth [OF assms that] by fastforce
  then show ?thesis
    by (simp add: py_range_int storedY_def)
qed

lemma take_as_map_nth: "N \<le> length m \<Longrightarrow> take N m = map ((!) m) [0..<N]"
  by (simp add: list_eq_iff_nth_eq)

lemma expected_lines_stored:
  assumes "holds_positions m N"
  shows "expected_lines str m N =
           concat (map (\<lambda>i. [str (storedX m N ! i), str (storedY m N ! i)]) [0..<N])"
proof -
  from assms have N: "N \<le> length m" by (simp add: holds_positions_def)
  have "series_lines str (m ! i) = [str (storedX m N ! i), str (storedY m N ! i)]"
    if "i < N" for i
    using lookup_has_position [of i m str] holds_positions_nth [OF assms that] that
    by (auto simp: storedX_def storedY_def)
  then have eq: "map (\<lambda>i. series_lines str (m ! i)) [0..<N]
           = map (\<lambda>i. [str (storedX m N ! i), str (storedY m N ! i)]) [0..<N]"
    by simp
  have "expected_lines str m N = concat (map (\<lambda>i. series_lines str (m ! i)) [0..<N])"
    by (simp add: expected_lines_def take_as_map_nth [OF N] comp_def)
  also have "\<dots> = concat (map (\<lambda>i. [str (storedX m N ! i), str (storedY m N ! i)]) [0..<N])"
    by (simp only: eq)
  finally show ?thesis .
qed

lemma length_pairs: "length (concat (map (\<lambda>i. [a i, b i]) is)) = 2 * length is"
  by (induction "is") simp_all

lemma logged_as_lines:
  "logged str xs ys is = map IJLog (concat (map (\<lambda>i. [str (xs ! nat i), str (ys ! nat i)]) is))"
  by (induction "is") (simp_all add: logged_def)

lemma log_lines_map_IJLog: "log_lines (map IJLog ls) = ls"
  by (induction ls) simp_all

lemma filter_reads_X: "filter is_read (map (\<lambda>i. GetPlanePositionX i p) is) = map (\<lambda>i. GetPlanePositionX i p) is"
  by (induction "is") simp_all

lemma filter_reads_Y: "filter is_read (map (\<lambda>i. GetPlanePositionY i p) is) = map (\<lambda>i. GetPlanePositionY i p) is"
  by (induction "is") simp_all

lemma filter_reads_logs: "filter is_read (map IJLog ls) = []"
  by (induction ls) simp_all

text \<open>The whole run on a store that holds positions for the series the script reads.\<close>

lemma script_on_positions:
  assumes f: "fs file = Some f"
    and n: "int N = (if k \<noteq> - 1 then k else nativeSeriesCount f)"
    and h: "holds_positions (parsed f) N"
  shows "script fs str file k =
     (Inr (), (closed_state f file (int N))
        \<lparr>posX := storedX (parsed f) N, posY := storedY (parsed f) N,
         trace := [ReaderSetId file, ReaderGetSeriesCount, ReaderClose] @
           map (\<lambda>i. GetPlanePositionX i 0) (py_range (int N)) @
           map (\<lambda>i. GetPlanePositionY i 0) (py_range (int N)) @
           map IJLog (expected_lines str (parsed f) N)\<rparr>)"
proof -
  have x: "collect (map (lookupX (parsed f)) (py_range (int N))) = Inr (storedX (parsed f) N)"
    by (simp add: holds_lookupX [OF h])
  have y: "collect (map (lookupY (parsed f)) (py_range (int N))) = Inr (storedY (parsed f) N)"
    by (simp add: holds_lookupY [OF h])
  have "logged str (storedX (parsed f) N) (storedY (parsed f) N) (py_range (int N))
          = map IJLog (expected_lines str (parsed f) N)"
    by (simp add: logged_as_lines expected_lines_stored [OF h] py_range_int comp_def)
  with script_succeeds [where fs = fs and k = k and str = str, OF f n x y]
  show ?thesis by simp
qed

lemma length_expected_lines:
  "holds_positions m N \<Longrightarrow> length (expected_lines str m N) = 2 * N"
  by (simp add: expected_lines_stored length_pairs)

lemma holds_three_tiles: "holds_positions (parsed three_tiles) 3"
  by (simp add: holds_positions_def three_tiles_def has_position_def)

lemma expected_three_tiles:
  "expected_lines str (parsed three_tiles) 3 = [str 1, str 2, str 3, str 4, str 5, str 6]"
  by (simp add: expected_lines_def three_tiles_def series_lines_def)

subsection \<open>The shape of every run on an opened file\<close>

lemma length_py_range: "length (py_range n) = nat n"
  by (simp add: py_range_def)

lemma nth_py_range: "i < nat n \<Longrightarrow> py_range n ! i = int i"
  by (simp add: py_range_def)

lemma run_shape:
  assumes f: "fs file = Some f"
    and n: "n = (if k \<noteq> - 1 then k else nativeSeriesCount f)"
  obtains a b L where
    "trace (final_state fs str file k) =
       [ReaderSetId file, ReaderGetSeriesCount, ReaderClose] @
       map (\<lambda>i. GetPlanePositionX i 0) (take a (py_range n)) @
       map (\<lambda>i. GetPlanePositionY i 0) (take b (py_range n)) @ map IJLog L"
    and "outcome fs str file k = Inr () \<or> L = []"
    and "L = [] \<or> (nat n \<le> a \<and> nat n \<le> b)"
    and "log_output fs str file k = L"
    and "seriesCount (final_state fs str file k) = n"
proof (cases "collect (map (lookupX (parsed f)) (py_range n))")
  case (Inl e)
  note run = script_X_fails [where fs = fs and k = k and str = str, OF f n Inl]
  show ?thesis
  proof (rule that [of "attempted (map (lookupX (parsed f)) (py_range n))" 0 "[]"])
    show "trace (final_state fs str file k) =
       [ReaderSetId file, ReaderGetSeriesCount, ReaderClose] @
       map (\<lambda>i. GetPlanePositionX i 0)
         (take (attempted (map (lookupX (parsed f)) (py_range n))) (py_range n)) @
       map (\<lambda>i. GetPlanePositionY i 0) (take 0 (py_range n)) @ map IJLog []"
      by (simp add: final_state_def run)
    show "log_output fs str file k = []"
      by (simp add: log_output_def final_state_def run log_lines_readsX log_lines_append)
    show "seriesCount (final_state fs str file k) = n"
      by (simp add: final_state_def run closed_state_def)
  qed simp_all
next
  case xs: (Inr xs)
  show ?thesis
  proof (cases "collect (map (lookupY (parsed f)) (py_range n))")
    case (Inl e)
    note run = script_Y_fails [where fs = fs and k = k and str = str, OF f n xs Inl]
    show ?thesis
    proof (rule that [of "nat n" "attempted (map (lookupY (parsed f)) (py_range n))" "[]"])
      show "trace (final_state fs str file k) =
         [ReaderSetId file, ReaderGetSeriesCount, ReaderClose] @
         map (\<lambda>i. GetPlanePositionX i 0) (take (nat n) (py_range n)) @
         map (\<lambda>i. GetPlanePositionY i 0)
           (take (attempted (map (lookupY (parsed f)) (py_range n))) (py_range n)) @
         map IJLog []"
        by (simp add: final_state_def run length_py_range)
      show "log_output fs str file k = []"
        by (simp add: log_output_def final_state_def run log_lines_readsX log_lines_readsY
            log_lines_append)
      show "seriesCount (final_state fs str file k) = n"
        by (simp add: final_state_def run closed_state_def)
    qed simp_all
  next
    case (Inr ys)
    note run = script_succeeds [where fs = fs and k = k and str = str, OF f n xs Inr]
    let ?L = "concat (map (\<lambda>i. [str (xs ! nat i), str (ys ! nat i)]) (py_range n))"
    show ?thesis
    proof (rule that [of "nat n" "nat n" ?L])
      show "trace (final_state fs str file k) =
         [ReaderSetId file, ReaderGetSeriesCount, ReaderClose] @
         map (\<lambda>i. GetPlanePositionX i 0) (take (nat n) (py_range n)) @
         map (\<lambda>i. GetPlanePositionY i 0) (take (nat n) (py_range n)) @ map IJLog ?L"
        by (simp add: final_state_def run length_py_range logged_as_lines)
      show "log_output fs str file k = ?L"
        by (simp add: log_output_def final_state_def run log_lines_readsX log_lines_readsY
            log_lines_append logged_as_lines log_lines_map_IJLog)
      show "seriesCount (final_state fs str file k) = n"
        by (simp add: final_state_def run closed_state_def)
      show "outcome fs str file k = Inr () \<or> ?L = []"
        by (simp add: outcome_def run)
    qed simp_all
  qed
qed

lemma no_read_after_log:
  assumes P: "\<forall>e\<in>set P. \<not> is_log e"
    and ab: "a < b" "b < length (P @ map IJLog L)"
    and a: "is_log ((P @ map IJLog L) ! a)"
  shows "\<not> is_read ((P @ map IJLog L) ! b)"
proof -
  have "length P \<le> a"
  proof (rule ccontr)
    assume "\<not> length P \<le> a"
    then have "a < length P" by simp
    then have "(P @ map IJLog L) ! a \<in> set P" by (simp add: nth_append)
    with P a show False by blast
  qed
  with ab have "(P @ map IJLog L) ! b = IJLog (L ! (b - length P))"
    by (simp add: nth_append)
  then show ?thesis by simp
qed

subsection \<open>Reading past the end of the store\<close>





lemma lookupX_Inr_D:
  "lookupX m j = Inr x \<Longrightarrow> \<exists>pl. plane_at m j 0 = Inr pl \<and> positionX pl = Some x"
  by (auto simp: lookupX_def value_of_def split: sum.splits option.splits)

lemma lookupY_Inr_D:
  "lookupY m j = Inr y \<Longrightarrow> \<exists>pl. plane_at m j 0 = Inr pl \<and> positionY pl = Some y"
  by (auto simp: lookupY_def value_of_def split: sum.splits option.splits)

lemma nth_pairs:
  "i < length is \<Longrightarrow>
     concat (map (\<lambda>j. [a j, b j]) is) ! (2 * i) = a (is ! i)
   \<and> concat (map (\<lambda>j. [a j, b j]) is) ! (2 * i + 1) = b (is ! i)"
proof (induction "is" arbitrary: i)
  case Nil
  then show ?case by simp
next
  case (Cons j "is")
  show ?case
  proof (cases i)
    case 0
    then show ?thesis by simp
  next
    case (Suc i')
    with Cons.prems have "i' < length is" by simp
    from Cons.IH [OF this] Suc show ?thesis by simp
  qed
qed

subsection \<open>Two concrete runs\<close>

lemma holds_two_tiles: "holds_positions (parsed three_tiles) 2"
  by (simp add: holds_positions_def three_tiles_def has_position_def)

lemma two_tiles_run:
  "script disk one_decimal ''tiles.lif'' 2 =
     (Inr (), (closed_state three_tiles ''tiles.lif'' 2)
        \<lparr>posX := storedX (parsed three_tiles) 2, posY := storedY (parsed three_tiles) 2,
         trace := [ReaderSetId ''tiles.lif'', ReaderGetSeriesCount, ReaderClose,
            GetPlanePositionX 0 0, GetPlanePositionX 1 0,
            GetPlanePositionY 0 0, GetPlanePositionY 1 0,
            IJLog ''1.0'', IJLog ''2.0'', IJLog ''3.0'', IJLog ''4.0'']\<rparr>)"
proof -
  have f: "disk ''tiles.lif'' = Some three_tiles" by (simp add: disk_def)
  have n: "int 2 = (if (2 :: int) \<noteq> - 1 then 2 else nativeSeriesCount three_tiles)" by simp
  have e: "expected_lines one_decimal (parsed three_tiles) 2 = [''1.0'', ''2.0'', ''3.0'', ''4.0'']"
    by (simp add: expected_lines_def three_tiles_def series_lines_def one_decimal_def)
  have r: "py_range (int 2) = [0, 1]"
    by (simp add: py_range_def upt_conv_Cons)
  from script_on_positions [where fs = disk and k = 2 and str = one_decimal, OF f n holds_two_tiles]
  show ?thesis by (simp only: e r) simp
qed

lemma gap_run:
  "outcome gap_disk one_decimal ''gap.lif'' (- 1) = Inl AttributeError"
proof -
  have f: "gap_disk ''gap.lif'' = Some gap_tiles" by (simp add: gap_disk_def)
  have n: "2 = (if (- 1 :: int) \<noteq> - 1 then - 1 else nativeSeriesCount gap_tiles)"
    by (simp add: gap_tiles_def)
  have r: "py_range 2 = [0, 1]"
    by (simp add: py_range_def upt_conv_Cons)
  have x: "collect (map (lookupX (parsed gap_tiles)) (py_range 2)) = Inr [1, 3]"
    by (simp add: r lookupX_def plane_at_def java_get_def value_of_def gap_tiles_def)
  have y: "collect (map (lookupY (parsed gap_tiles)) (py_range 2)) = Inl AttributeError"
    by (simp add: r lookupY_def plane_at_def java_get_def value_of_def gap_tiles_def)
  from script_Y_fails [where fs = gap_disk and k = "- 1" and str = one_decimal, OF f n x y]
  show ?thesis by (simp add: outcome_def)
qed

subsection \<open>The run beyond the end of the store\<close>


subsection \<open>The host's limit\<close>

text \<open>Where the lists fit, the run on the host is the run of \<open>script\<close>; where the first
  does not fit, the run ends right after \<^verbatim>\<open>reader.close()\<close>.\<close>

lemma script_on_host_unopened:
  "fs file = None \<Longrightarrow> script_on_host cap fs str file k = script fs str file k"
  by (simp add: script_on_host_def script_def options_setId_def reader_setId_def emit_def init_def)





subsection \<open>Two failing runs\<close>


lemma gap_run_two:
  "outcome gap_disk one_decimal ''gap.lif'' 2 = Inl AttributeError"
  "log_output gap_disk one_decimal ''gap.lif'' 2 = []"
proof -
  have f: "gap_disk ''gap.lif'' = Some gap_tiles" by (simp add: gap_disk_def)
  have n: "2 = (if (2 :: int) \<noteq> - 1 then 2 else nativeSeriesCount gap_tiles)"
    by simp
  have r: "py_range 2 = [0, 1]"
    by (simp add: py_range_def upt_conv_Cons)
  have x: "collect (map (lookupX (parsed gap_tiles)) (py_range 2)) = Inr [1, 3]"
    by (simp add: r lookupX_def plane_at_def java_get_def value_of_def gap_tiles_def)
  have y: "collect (map (lookupY (parsed gap_tiles)) (py_range 2)) = Inl AttributeError"
    by (simp add: r lookupY_def plane_at_def java_get_def value_of_def gap_tiles_def)
  note run = script_Y_fails [where fs = gap_disk and k = 2 and str = one_decimal, OF f n x y]
  show "outcome gap_disk one_decimal ''gap.lif'' 2 = Inl AttributeError"
    by (simp add: outcome_def run)
  show "log_output gap_disk one_decimal ''gap.lif'' 2 = []"
    by (simp add: log_output_def final_state_def run log_lines_append log_lines_readsX
        log_lines_readsY)
qed

section \<open>The claims\<close>

text \<open>
  C7. For every path that the reader cannot open, the script fails in the open step with
  the reader's error: the trace holds the call of \<^verbatim>\<open>setId\<close> and nothing else, and no log
  line is written.
\<close>

theorem C7_unreadable_path_no_output:
  "fs file = None \<Longrightarrow>
     outcome fs str file nrTiles = Inl IOException
   \<and> trace (final_state fs str file nrTiles) = [ReaderSetId file]
   \<and> log_output fs str file nrTiles = []"
  by (simp add: outcome_def final_state_def log_output_def script_unopened)

theorem C7_unreadable_path_no_output_witness:
  "disk ''absent.lif'' = None
   \<and> outcome disk one_decimal ''absent.lif'' 4 = Inl IOException
   \<and> trace (final_state disk one_decimal ''absent.lif'' 4) = [ReaderSetId ''absent.lif'']
   \<and> log_output disk one_decimal ''absent.lif'' 4 = []"
proof -
  have h: "disk ''absent.lif'' = None" by (simp add: disk_def)
  from C7_unreadable_path_no_output [of disk "''absent.lif''" one_decimal 4] h
  show ?thesis by simp
qed

text \<open>
  C10. For every file that opens and every \<^verbatim>\<open>nrTiles\<close> below -1, the script succeeds and
  writes no log line: the range of the override is empty, so the run ends in the state it
  had right after closing the reader, with no read of the metadata store in its trace.
\<close>

theorem C10_negative_override_no_output:
  assumes "fs file = Some f" and "nrTiles < - 1"
  shows "outcome fs str file nrTiles = Inr ()
       \<and> log_output fs str file nrTiles = []
       \<and> final_state fs str file nrTiles = closed_state f file nrTiles"
proof -
  from assms(2) have r: "py_range nrTiles = []" by (simp add: py_range_nonpos)
  from assms(2) have n: "nrTiles = (if nrTiles \<noteq> - 1 then nrTiles else nativeSeriesCount f)"
    by simp
  have "script fs str file nrTiles = (Inr (), closed_state f file nrTiles)"
    using script_succeeds [where fs = fs and f = f and k = nrTiles
        and n = nrTiles and xs = "[]" and ys = "[]" and str = str, OF assms(1) n]
    by (simp add: r logged_def closed_state_def)
  then show ?thesis
    by (simp add: outcome_def log_output_def final_state_def closed_state_def)
qed

theorem C10_negative_override_no_output_witness:
  "disk ''tiles.lif'' = Some three_tiles \<and> (- 5 :: int) < - 1
   \<and> outcome disk one_decimal ''tiles.lif'' (- 5) = Inr ()
   \<and> log_output disk one_decimal ''tiles.lif'' (- 5) = []
   \<and> final_state disk one_decimal ''tiles.lif'' (- 5) = closed_state three_tiles ''tiles.lif'' (- 5)"
proof -
  have h: "disk ''tiles.lif'' = Some three_tiles" by (simp add: disk_def)
  have k: "(- 5 :: int) < - 1" by simp
  from C10_negative_override_no_output [of disk "''tiles.lif''" three_tiles "- 5" one_decimal] h k
  show ?thesis by simp
qed

text \<open>
  C2. For every file that opens, the variable \<^verbatim>\<open>seriesCount\<close> ends as the reader's series
  count when \<^verbatim>\<open>nrTiles\<close> is -1 and as \<^verbatim>\<open>nrTiles\<close> itself otherwise, whatever the number of
  series of the file; no check stands between the override and the reads, the script
  always gets as far as closing the reader.
\<close>

theorem C2_effective_seriesCount:
  assumes "fs file = Some f"
  shows "seriesCount (final_state fs str file nrTiles)
           = (if nrTiles = - 1 then nativeSeriesCount f else nrTiles)
       \<and> take 3 (trace (final_state fs str file nrTiles))
           = [ReaderSetId file, ReaderGetSeriesCount, ReaderClose]"
proof -
  define n where "n = (if nrTiles \<noteq> - 1 then nrTiles else nativeSeriesCount f)"
  show ?thesis
  proof (cases "collect (map (lookupX (parsed f)) (py_range n))")
    case (Inl e)
    from script_X_fails [where fs = fs and k = nrTiles and str = str, OF assms n_def Inl] show ?thesis
      by (simp add: final_state_def closed_state_def n_def)
  next
    case xs: (Inr xs)
    show ?thesis
    proof (cases "collect (map (lookupY (parsed f)) (py_range n))")
      case (Inl e)
      from script_Y_fails [where fs = fs and k = nrTiles and str = str, OF assms n_def xs Inl] show ?thesis
        by (simp add: final_state_def closed_state_def n_def)
    next
      case (Inr ys)
      from script_succeeds [where fs = fs and k = nrTiles and str = str, OF assms n_def xs Inr] show ?thesis
        by (simp add: final_state_def closed_state_def n_def)
    qed
  qed
qed

theorem C2_effective_seriesCount_witness:
  "disk ''tiles.lif'' = Some three_tiles
   \<and> seriesCount (final_state disk one_decimal ''tiles.lif'' 7) = 7
   \<and> take 3 (trace (final_state disk one_decimal ''tiles.lif'' 7))
        = [ReaderSetId ''tiles.lif'', ReaderGetSeriesCount, ReaderClose]"
proof -
  have h: "disk ''tiles.lif'' = Some three_tiles" by (simp add: disk_def)
  from C2_effective_seriesCount [of disk "''tiles.lif''" three_tiles one_decimal 7] h
  show ?thesis by simp
qed

text \<open>
  C1. For every file whose reader reports \<open>N\<close> series and whose metadata store holds
  positions for these \<open>N\<close> series, the run with \<^verbatim>\<open>nrTiles = -1\<close> succeeds and writes exactly
  \<open>2N\<close> log lines: for each series in ascending order the X value of its plane 0 and then
  the Y value, which are \<^verbatim>\<open>posX[0], posY[0], ..., posX[N-1], posY[N-1]\<close> of the script's two
  lists.
\<close>

theorem C1_native_count_logs_every_series:
  assumes "fs file = Some f"
    and "nativeSeriesCount f = int N"
    and "holds_positions (parsed f) N"
  shows "outcome fs str file (- 1) = Inr ()
       \<and> length (log_output fs str file (- 1)) = 2 * N
       \<and> log_output fs str file (- 1) = expected_lines str (parsed f) N
       \<and> log_output fs str file (- 1) =
           concat (map (\<lambda>i. [str (posX (final_state fs str file (- 1)) ! i),
                              str (posY (final_state fs str file (- 1)) ! i)]) [0..<N])"
proof -
  have n: "int N = (if (- 1 :: int) \<noteq> - 1 then - 1 else nativeSeriesCount f)"
    using assms(2) by simp
  note run = script_on_positions [where fs = fs and k = "- 1" and str = str, OF assms(1) n assms(3)]
  have o: "outcome fs str file (- 1) = Inr ()"
    by (simp add: outcome_def run)
  have l: "log_output fs str file (- 1) = expected_lines str (parsed f) N"
    by (simp add: log_output_def final_state_def run closed_state_def log_lines_append
        log_lines_readsX log_lines_readsY log_lines_map_IJLog)
  have px: "posX (final_state fs str file (- 1)) = storedX (parsed f) N"
    and py: "posY (final_state fs str file (- 1)) = storedY (parsed f) N"
    by (simp_all add: final_state_def run closed_state_def)
  from o l show ?thesis
    by (simp add: px py length_pairs expected_lines_stored [OF assms(3)])
qed

theorem C1_native_count_logs_every_series_witness:
  "disk ''tiles.lif'' = Some three_tiles
   \<and> nativeSeriesCount three_tiles = int 3
   \<and> holds_positions (parsed three_tiles) 3
   \<and> outcome disk one_decimal ''tiles.lif'' (- 1) = Inr ()
   \<and> length (log_output disk one_decimal ''tiles.lif'' (- 1)) = 2 * 3
   \<and> log_output disk one_decimal ''tiles.lif'' (- 1)
        = expected_lines one_decimal (parsed three_tiles) 3"
proof -
  have f: "disk ''tiles.lif'' = Some three_tiles" by (simp add: disk_def)
  have n: "nativeSeriesCount three_tiles = int 3" by (simp add: three_tiles_def)
  from C1_native_count_logs_every_series
         [of disk "''tiles.lif''" three_tiles 3 one_decimal] f n holds_three_tiles
  show ?thesis by blast
qed

text \<open>
  C3. For every file whose metadata store holds positions (plane 0 with an X and a Y value)
  for \<open>N\<close> series and every \<open>k\<close> with \<open>0 \<le> k \<le> N\<close>, the run with \<^verbatim>\<open>nrTiles = k\<close> succeeds
  and writes exactly \<open>2k\<close> log lines, those of the first \<open>k\<close> series; the only reads of
  the store are the X and the Y reads of the series \<open>0\<close> to \<open>k - 1\<close>.
\<close>

theorem C3_override_within_count:
  assumes "fs file = Some f"
    and "holds_positions (parsed f) N"
    and "0 \<le> k" and "k \<le> int N"
  shows "outcome fs str file k = Inr ()
       \<and> length (log_output fs str file k) = 2 * nat k
       \<and> log_output fs str file k = expected_lines str (parsed f) (nat k)
       \<and> filter is_read (trace (final_state fs str file k)) =
           map (\<lambda>i. GetPlanePositionX i 0) (py_range k) @
           map (\<lambda>i. GetPlanePositionY i 0) (py_range k)"
proof -
  from assms(3) have n: "int (nat k) = (if k \<noteq> - 1 then k else nativeSeriesCount f)"
    by simp
  from assms(2,3,4) have h: "holds_positions (parsed f) (nat k)"
    by (auto simp: holds_positions_def list_all_length)
  note run = script_on_positions [where fs = fs and k = k and str = str, OF assms(1) n h]
  from assms(3) have k: "int (nat k) = k" by simp
  have o: "outcome fs str file k = Inr ()"
    by (simp add: outcome_def run)
  have l: "log_output fs str file k = expected_lines str (parsed f) (nat k)"
    by (simp add: log_output_def final_state_def run closed_state_def log_lines_append
        log_lines_readsX log_lines_readsY log_lines_map_IJLog)
  have r: "filter is_read (trace (final_state fs str file k)) =
           map (\<lambda>i. GetPlanePositionX i 0) (py_range k) @
           map (\<lambda>i. GetPlanePositionY i 0) (py_range k)"
    using assms(3)
    by (simp add: final_state_def run closed_state_def filter_reads_X filter_reads_Y
        filter_reads_logs)
  from o l r show ?thesis
    by (simp add: length_expected_lines [OF h])
qed

theorem C3_override_within_count_witness:
  "disk ''tiles.lif'' = Some three_tiles
   \<and> holds_positions (parsed three_tiles) 3 \<and> (0 :: int) \<le> 2 \<and> (2 :: int) \<le> int 3
   \<and> outcome disk one_decimal ''tiles.lif'' 2 = Inr ()
   \<and> length (log_output disk one_decimal ''tiles.lif'' 2) = 2 * nat 2
   \<and> log_output disk one_decimal ''tiles.lif'' 2
        = expected_lines one_decimal (parsed three_tiles) (nat 2)
   \<and> filter is_read (trace (final_state disk one_decimal ''tiles.lif'' 2)) =
        map (\<lambda>i. GetPlanePositionX i 0) (py_range 2) @
        map (\<lambda>i. GetPlanePositionY i 0) (py_range 2)"
proof -
  have f: "disk ''tiles.lif'' = Some three_tiles" by (simp add: disk_def)
  have k: "(0 :: int) \<le> 2" "(2 :: int) \<le> int 3" by simp_all
  from C3_override_within_count
         [of disk "''tiles.lif''" three_tiles 3 2 one_decimal] f holds_three_tiles k
  show ?thesis by blast
qed

text \<open>
  The positions are needed: a file with two series whose second series gives no Y value,
  run with \<^verbatim>\<open>nrTiles = 2\<close>, ends in the error of the missing value and writes no line at
  all, not four.
\<close>

theorem C3_override_within_count_counterexample:
  "gap_disk ''gap.lif'' = Some gap_tiles \<and> length (parsed gap_tiles) = 2
   \<and> (0 :: int) \<le> 2 \<and> (2 :: int) \<le> int 2
   \<and> outcome gap_disk one_decimal ''gap.lif'' 2 = Inl AttributeError
   \<and> log_output gap_disk one_decimal ''gap.lif'' 2 = []
   \<and> length (log_output gap_disk one_decimal ''gap.lif'' 2) \<noteq> 2 * nat 2"
  by (simp add: gap_run_two gap_disk_def gap_tiles_def)

text \<open>
  C8. For the file of three series at (1.0, 2.0), (3.0, 4.0) and (5.0, 6.0) with a native
  series count of 3, the run with \<^verbatim>\<open>nrTiles = -1\<close> writes exactly the six log lines
  "1.0", "2.0", "3.0", "4.0", "5.0", "6.0" in that order, for a host conversion \<open>str\<close> that
  renders these six values so.
\<close>

theorem C8_three_tiles_six_lines:
  assumes "fs file = Some three_tiles"
    and "str 1 = ''1.0''" and "str 2 = ''2.0''" and "str 3 = ''3.0''"
    and "str 4 = ''4.0''" and "str 5 = ''5.0''" and "str 6 = ''6.0''"
  shows "log_output fs str file (- 1) = [''1.0'', ''2.0'', ''3.0'', ''4.0'', ''5.0'', ''6.0'']"
proof -
  have n: "int 3 = (if (- 1 :: int) \<noteq> - 1 then - 1 else nativeSeriesCount three_tiles)"
    by (simp add: three_tiles_def)
  note run = script_on_positions
    [where fs = fs and k = "- 1" and str = str, OF assms(1) n holds_three_tiles]
  have "log_output fs str file (- 1) = expected_lines str (parsed three_tiles) 3"
    by (simp add: log_output_def final_state_def run closed_state_def log_lines_append
        log_lines_readsX log_lines_readsY log_lines_map_IJLog)
  with assms(2-) show ?thesis
    by (simp add: expected_three_tiles)
qed

theorem C8_three_tiles_six_lines_witness:
  "disk ''tiles.lif'' = Some three_tiles
   \<and> one_decimal 1 = ''1.0'' \<and> one_decimal 2 = ''2.0'' \<and> one_decimal 3 = ''3.0''
   \<and> one_decimal 4 = ''4.0'' \<and> one_decimal 5 = ''5.0'' \<and> one_decimal 6 = ''6.0''
   \<and> log_output disk one_decimal ''tiles.lif'' (- 1)
        = [''1.0'', ''2.0'', ''3.0'', ''4.0'', ''5.0'', ''6.0'']"
proof -
  have f: "disk ''tiles.lif'' = Some three_tiles" by (simp add: disk_def)
  have s: "one_decimal 1 = ''1.0''" "one_decimal 2 = ''2.0''" "one_decimal 3 = ''3.0''"
    "one_decimal 4 = ''4.0''" "one_decimal 5 = ''5.0''" "one_decimal 6 = ''6.0''"
    by (simp_all add: one_decimal_def)
  from C8_three_tiles_six_lines [of disk "''tiles.lif''" one_decimal, OF f s] f s
  show ?thesis by simp
qed




text \<open>
  C5. In every run on an opened file, every read of the store is a read of plane 0; and
  in every run that succeeds, for every series index \<open>i\<close> below the effective series
  count the two lines written for series \<open>i\<close> are the X and the Y position of one and
  the same plane, plane 0 of series \<open>i\<close>.
\<close>

theorem C5_values_from_plane_zero:
  assumes f: "fs file = Some f"
  shows "(\<forall>e \<in> set (trace (final_state fs str file k)). \<forall>i p.
            e = GetPlanePositionX i p \<or> e = GetPlanePositionY i p \<longrightarrow> p = 0)
       \<and> (outcome fs str file k = Inr () \<longrightarrow>
           (\<forall>i < nat (if k = - 1 then nativeSeriesCount f else k).
              \<exists>pl x y. plane_at (parsed f) (int i) 0 = Inr pl
                 \<and> positionX pl = Some x \<and> positionY pl = Some y
                 \<and> log_output fs str file k ! (2 * i) = str x
                 \<and> log_output fs str file k ! (2 * i + 1) = str y))"
proof -
  define n where "n = (if k \<noteq> - 1 then k else nativeSeriesCount f)"
  have n': "(if k = - 1 then nativeSeriesCount f else k) = n"
    by (simp add: n_def)
  from f n_def obtain a b L where
    t: "trace (final_state fs str file k) =
       [ReaderSetId file, ReaderGetSeriesCount, ReaderClose] @
       map (\<lambda>i. GetPlanePositionX i 0) (take a (py_range n)) @
       map (\<lambda>i. GetPlanePositionY i 0) (take b (py_range n)) @ map IJLog L"
    by (rule run_shape)
  have 1: "\<forall>e \<in> set (trace (final_state fs str file k)). \<forall>i p.
            e = GetPlanePositionX i p \<or> e = GetPlanePositionY i p \<longrightarrow> p = 0"
    by (auto simp: t)
  have 2: "\<exists>pl x y. plane_at (parsed f) (int i) 0 = Inr pl
                 \<and> positionX pl = Some x \<and> positionY pl = Some y
                 \<and> log_output fs str file k ! (2 * i) = str x
                 \<and> log_output fs str file k ! (2 * i + 1) = str y"
    if ok: "outcome fs str file k = Inr ()" and i: "i < nat n" for i
  proof -
    obtain xs where xs: "collect (map (lookupX (parsed f)) (py_range n)) = Inr xs"
    proof (cases "collect (map (lookupX (parsed f)) (py_range n))")
      case (Inl e)
      from script_X_fails [where fs = fs and k = k and str = str, OF f n_def Inl] ok
      show ?thesis by (simp add: outcome_def)
    next
      case (Inr xs)
      then show ?thesis by (rule that)
    qed
    obtain ys where ys: "collect (map (lookupY (parsed f)) (py_range n)) = Inr ys"
    proof (cases "collect (map (lookupY (parsed f)) (py_range n))")
      case (Inl e)
      from script_Y_fails [where fs = fs and k = k and str = str, OF f n_def xs Inl] ok
      show ?thesis by (simp add: outcome_def)
    next
      case (Inr ys)
      then show ?thesis by (rule that)
    qed
    note run = script_succeeds [where fs = fs and k = k and str = str, OF f n_def xs ys]
    have out: "log_output fs str file k
        = concat (map (\<lambda>j. [str (xs ! nat j), str (ys ! nat j)]) (py_range n))"
      by (simp add: log_output_def final_state_def run log_lines_readsX log_lines_readsY
            log_lines_append logged_as_lines log_lines_map_IJLog)
    from i have il: "i < length (py_range n)" by (simp add: length_py_range)
    from i have ni: "py_range n ! i = int i" by (rule nth_py_range)
    from xs have "map (lookupX (parsed f)) (py_range n) = map Inr xs"
      by (rule collect_Inr_D)
    then have "map (lookupX (parsed f)) (py_range n) ! i = map Inr xs ! i"
      and lx: "length xs = length (py_range n)"
      by (simp, metis length_map)
    with il ni have x: "lookupX (parsed f) (int i) = Inr (xs ! i)" by simp
    from ys have "map (lookupY (parsed f)) (py_range n) = map Inr ys"
      by (rule collect_Inr_D)
    then have "map (lookupY (parsed f)) (py_range n) ! i = map Inr ys ! i"
      and ly: "length ys = length (py_range n)"
      by (simp, metis length_map)
    with il ni have y: "lookupY (parsed f) (int i) = Inr (ys ! i)" by simp
    from lookupX_Inr_D [OF x] obtain pl
      where pl: "plane_at (parsed f) (int i) 0 = Inr pl" "positionX pl = Some (xs ! i)"
      by blast
    from lookupY_Inr_D [OF y] pl(1) have py: "positionY pl = Some (ys ! i)"
      by auto
    from nth_pairs [OF il, of "\<lambda>j. str (xs ! nat j)" "\<lambda>j. str (ys ! nat j)"] ni
    have "log_output fs str file k ! (2 * i) = str (xs ! i)"
      "log_output fs str file k ! (2 * i + 1) = str (ys ! i)"
      by (simp_all add: out)
    with pl py show ?thesis by blast
  qed
  from 1 2 show ?thesis unfolding n' by blast
qed

theorem C5_values_from_plane_zero_witness:
  "disk ''tiles.lif'' = Some three_tiles
   \<and> GetPlanePositionY 1 0 \<in> set (trace (final_state disk one_decimal ''tiles.lif'' 2))
   \<and> outcome disk one_decimal ''tiles.lif'' 2 = Inr ()
   \<and> (1 :: nat) < nat (if (2 :: int) = - 1 then nativeSeriesCount three_tiles else 2)
   \<and> (\<exists>pl x y. plane_at (parsed three_tiles) (int 1) 0 = Inr pl
         \<and> positionX pl = Some x \<and> positionY pl = Some y
         \<and> log_output disk one_decimal ''tiles.lif'' 2 ! (2 * 1) = one_decimal x
         \<and> log_output disk one_decimal ''tiles.lif'' 2 ! (2 * 1 + 1) = one_decimal y)"
proof -
  have f: "disk ''tiles.lif'' = Some three_tiles" by (simp add: disk_def)
  have r: "GetPlanePositionY 1 0 \<in> set (trace (final_state disk one_decimal ''tiles.lif'' 2))"
    by (simp add: final_state_def two_tiles_run)
  have ok: "outcome disk one_decimal ''tiles.lif'' 2 = Inr ()"
    by (simp add: outcome_def two_tiles_run)
  have i: "(1 :: nat) < nat (if (2 :: int) = - 1 then nativeSeriesCount three_tiles else 2)"
    by simp
  from C5_values_from_plane_zero [of disk "''tiles.lif''" three_tiles one_decimal 2] f ok i r
  show ?thesis by blast
qed

text \<open>
  C6. In every run, every read of a position from the metadata store has a call of
  \<^verbatim>\<open>reader.close()\<close> strictly before it in the trace, and no call of \<^verbatim>\<open>setId\<close> follows
  that close: no position is read while the reader holds the file open.
\<close>

theorem C6_close_before_reads:
  assumes j: "j < length (trace (final_state fs str file k))"
    and r: "is_read (trace (final_state fs str file k) ! j)"
  shows "\<exists>c<j. trace (final_state fs str file k) ! c = ReaderClose
            \<and> (\<forall>d. c < d \<and> d < length (trace (final_state fs str file k))
                  \<longrightarrow> \<not> is_setId (trace (final_state fs str file k) ! d))"
proof (cases "fs file")
  case None
  then have "trace (final_state fs str file k) = [ReaderSetId file]"
    by (simp add: final_state_def script_unopened)
  with j r show ?thesis by simp
next
  case (Some f)
  define n where "n = (if k \<noteq> - 1 then k else nativeSeriesCount f)"
  from Some n_def obtain a b L where
    t: "trace (final_state fs str file k) =
       [ReaderSetId file, ReaderGetSeriesCount, ReaderClose] @
       map (\<lambda>i. GetPlanePositionX i 0) (take a (py_range n)) @
       map (\<lambda>i. GetPlanePositionY i 0) (take b (py_range n)) @ map IJLog L"
    by (rule run_shape)
  define rest where "rest =
       map (\<lambda>i. GetPlanePositionX i 0) (take a (py_range n)) @
       map (\<lambda>i. GetPlanePositionY i 0) (take b (py_range n)) @ map IJLog L"
  have t': "trace (final_state fs str file k)
      = ReaderSetId file # ReaderGetSeriesCount # ReaderClose # rest"
    by (simp add: t rest_def)
  have rest: "\<forall>e\<in>set rest. \<not> is_setId e"
    by (auto simp: rest_def)
  have c: "2 < j"
  proof (rule ccontr)
    assume "\<not> 2 < j"
    then have "j = 0 \<or> j = 1 \<or> j = 2" by arith
    with r show False by (auto simp: t')
  qed
  have close: "trace (final_state fs str file k) ! 2 = ReaderClose"
    by (simp add: t')
  have t3: "trace (final_state fs str file k)
      = [ReaderSetId file, ReaderGetSeriesCount, ReaderClose] @ rest"
    by (simp add: t')
  have "\<not> is_setId (trace (final_state fs str file k) ! d)"
    if "2 < d" "d < length (trace (final_state fs str file k))" for d
  proof -
    from that have "d - 3 < length rest" by (simp add: t')
    moreover from that have "trace (final_state fs str file k) ! d = rest ! (d - 3)"
      unfolding t3 by (simp add: nth_append numeral_3_eq_3)
    ultimately have "trace (final_state fs str file k) ! d \<in> set rest"
      by simp
    with rest show ?thesis by blast
  qed
  with c close show ?thesis by blast
qed

theorem C6_close_before_reads_witness:
  "4 < length (trace (final_state disk one_decimal ''tiles.lif'' 2))
   \<and> is_read (trace (final_state disk one_decimal ''tiles.lif'' 2) ! 4)
   \<and> (\<exists>c<4. trace (final_state disk one_decimal ''tiles.lif'' 2) ! c = ReaderClose
         \<and> (\<forall>d. c < d \<and> d < length (trace (final_state disk one_decimal ''tiles.lif'' 2))
               \<longrightarrow> \<not> is_setId (trace (final_state disk one_decimal ''tiles.lif'' 2) ! d)))"
proof -
  have j: "4 < length (trace (final_state disk one_decimal ''tiles.lif'' 2))"
    by (simp add: final_state_def two_tiles_run)
  have r: "is_read (trace (final_state disk one_decimal ''tiles.lif'' 2) ! 4)"
    by (simp add: final_state_def two_tiles_run)
  from C6_close_before_reads [of 4 disk one_decimal "''tiles.lif''" 2, OF j r] j r
  show ?thesis by blast
qed

text \<open>
  C9. In every run that ends in an error, whichever read or step raised it, no log line
  is written. A run that writes a log line has made all \<open>2 * seriesCount\<close> reads of the
  store, and no read of the store follows a log line in the trace.
\<close>

theorem C9_reads_all_or_nothing:
  "(outcome fs str file k = Inl e \<longrightarrow> log_output fs str file k = [])
   \<and> (log_output fs str file k \<noteq> [] \<longrightarrow>
        length (filter is_read (trace (final_state fs str file k)))
          = 2 * nat (seriesCount (final_state fs str file k)))
   \<and> (\<forall>a b. a < b \<and> b < length (trace (final_state fs str file k))
            \<and> is_log (trace (final_state fs str file k) ! a)
          \<longrightarrow> \<not> is_read (trace (final_state fs str file k) ! b))"
proof (cases "fs file")
  case None
  then show ?thesis
    by (simp add: final_state_def log_output_def script_unopened)
next
  case (Some f)
  define n where "n = (if k \<noteq> - 1 then k else nativeSeriesCount f)"
  from Some n_def obtain a b L where
    t: "trace (final_state fs str file k) =
       [ReaderSetId file, ReaderGetSeriesCount, ReaderClose] @
       map (\<lambda>i. GetPlanePositionX i 0) (take a (py_range n)) @
       map (\<lambda>i. GetPlanePositionY i 0) (take b (py_range n)) @ map IJLog L"
    and o: "outcome fs str file k = Inr () \<or> L = []"
    and ab: "L = [] \<or> (nat n \<le> a \<and> nat n \<le> b)"
    and l: "log_output fs str file k = L"
    and sc: "seriesCount (final_state fs str file k) = n"
    by (rule run_shape)
  define P where "P = [ReaderSetId file, ReaderGetSeriesCount, ReaderClose] @
       map (\<lambda>i. GetPlanePositionX i 0) (take a (py_range n)) @
       map (\<lambda>i. GetPlanePositionY i 0) (take b (py_range n))"
  have tP: "trace (final_state fs str file k) = P @ map IJLog L"
    by (simp add: t P_def)
  have P: "\<forall>e\<in>set P. \<not> is_log e"
    by (auto simp: P_def)
  have 1: "outcome fs str file k = Inl e \<longrightarrow> log_output fs str file k = []"
    using o l by auto
  have 2: "length (filter is_read (trace (final_state fs str file k)))
          = 2 * nat (seriesCount (final_state fs str file k))"
    if "log_output fs str file k \<noteq> []"
  proof -
    from that l ab have "nat n \<le> a" "nat n \<le> b" by auto
    then have "take a (py_range n) = py_range n" "take b (py_range n) = py_range n"
      by (simp_all add: length_py_range)
    then show ?thesis
      by (simp add: t sc filter_reads_X filter_reads_Y filter_reads_logs length_py_range)
  qed
  have 3: "\<not> is_read (trace (final_state fs str file k) ! y)"
    if "x < y" "y < length (trace (final_state fs str file k))"
       "is_log (trace (final_state fs str file k) ! x)" for x y
    using no_read_after_log [OF P, of x y L] that by (simp add: tP)
  from 1 2 3 show ?thesis by blast
qed

theorem C9_reads_all_or_nothing_witness:
  "outcome gap_disk one_decimal ''gap.lif'' (- 1) = Inl AttributeError
   \<and> log_output gap_disk one_decimal ''gap.lif'' (- 1) = []
   \<and> log_output disk one_decimal ''tiles.lif'' 2 \<noteq> []
   \<and> length (filter is_read (trace (final_state disk one_decimal ''tiles.lif'' 2)))
        = 2 * nat (seriesCount (final_state disk one_decimal ''tiles.lif'' 2))
   \<and> (7 :: nat) < 8 \<and> 8 < length (trace (final_state disk one_decimal ''tiles.lif'' 2))
   \<and> is_log (trace (final_state disk one_decimal ''tiles.lif'' 2) ! 7)
   \<and> \<not> is_read (trace (final_state disk one_decimal ''tiles.lif'' 2) ! 8)"
proof -
  have l: "log_output disk one_decimal ''tiles.lif'' 2 \<noteq> []"
    by (simp add: log_output_def final_state_def two_tiles_run)
  have ab: "(7 :: nat) < 8" "8 < length (trace (final_state disk one_decimal ''tiles.lif'' 2))"
    "is_log (trace (final_state disk one_decimal ''tiles.lif'' 2) ! 7)"
    by (simp_all add: final_state_def two_tiles_run)
  from C9_reads_all_or_nothing [of gap_disk one_decimal "''gap.lif''" "- 1" AttributeError]
    gap_run
  have 1: "log_output gap_disk one_decimal ''gap.lif'' (- 1) = []" by blast
  from C9_reads_all_or_nothing [of disk one_decimal "''tiles.lif''" 2] l ab
  have 2: "length (filter is_read (trace (final_state disk one_decimal ''tiles.lif'' 2)))
        = 2 * nat (seriesCount (final_state disk one_decimal ''tiles.lif'' 2))"
    and 3: "\<not> is_read (trace (final_state disk one_decimal ''tiles.lif'' 2) ! 8)"
    by blast+
  from gap_run 1 l 2 ab 3 show ?thesis by blast
qed

end
